theory Spec2Isabelle
  imports Main "HOL-Library.Word" "HOL-Library.Monad_Syntax"
begin

unbundle bit_operations_syntax

section \<open>Fixed-width integer types of \<open>main.cpp\<close>\<close>

text \<open>
  \<open>using s32b = std::int32_t; using u32b = std::uint32_t;
  using s64b = std::int64_t; using u64b = std::uint64_t;\<close>

  All four are words of their width. A signed one is read with \<open>sint\<close> (two's
  complement), an unsigned one with \<open>uint\<close>. A C cast between two of them is \<open>ucast\<close>:
  it keeps the low bits, and between \<open>s32b\<close> and \<open>u32b\<close> it keeps all of them. A shift
  amount is a C \<open>int\<close>, modelled as \<open>int\<close>.
\<close>

type_synonym s32b = "32 word"
type_synonym u32b = "32 word"
type_synonym s64b = "64 word"
type_synonym u64b = "64 word"

section \<open>The shift operators of the language\<close>

text \<open>
  The header comment of \<open>main.cpp\<close> fixes the semantics the program relies on
  (C99 6.5.7):
  \<^item> a shift amount that is negative or not less than the width of the operand is
    undefined behaviour;
  \<^item> for \<open>x \<ge> 0\<close>, \<open>x << n\<close> is \<open>x * 2^n\<close>, and undefined behaviour on overflow;
  \<^item> for \<open>x < 0\<close>, \<open>x << n\<close> is undefined behaviour;
  \<^item> for \<open>x \<ge> 0\<close>, \<open>x >> n\<close> is the quotient of \<open>x / 2^n\<close>;
  \<^item> for \<open>x < 0\<close>, \<open>x >> n\<close> is implementation-defined.
  Undefined behaviour is the value \<open>None\<close>. The implementation-defined right shift of a
  negative value is the arithmetic one, as the compilers that provide
  \<open>__builtin_clzll\<close> define it. Shifts of unsigned operands wrap around.
\<close>

definition shl_s32 :: "s32b \<Rightarrow> int \<Rightarrow> s32b option" where
  "shl_s32 v n =
     (if n < 0 \<or> 32 \<le> n then None
      else if sint v < 0 then None
      else if 2 ^ 31 \<le> sint v * 2 ^ nat n then None
      else Some (push_bit (nat n) v))"

definition shr_s32 :: "s32b \<Rightarrow> int \<Rightarrow> s32b option" where
  "shr_s32 v n =
     (if n < 0 \<or> 32 \<le> n then None
      else Some (signed_drop_bit (nat n) v))"

definition shl_u32 :: "u32b \<Rightarrow> int \<Rightarrow> u32b option" where
  "shl_u32 v n =
     (if n < 0 \<or> 32 \<le> n then None
      else Some (push_bit (nat n) v))"

definition shr_u32 :: "u32b \<Rightarrow> int \<Rightarrow> u32b option" where
  "shr_u32 v n =
     (if n < 0 \<or> 32 \<le> n then None
      else Some (drop_bit (nat n) v))"

section \<open>The macros\<close>

text \<open>
  \<open>#define s64b_LSHIFT_2(V1, V2, N) {V1 = (V1<<(N)) | (V2>>(32-(N))); V2 <<= (N);}\<close>

  \<open>V1\<close> is an \<open>s32b\<close> and \<open>V2\<close> a \<open>u32b\<close>: \<open>V1<<(N)\<close> is a signed shift, its result is
  converted to unsigned for the \<open>|\<close>, and the assignment converts back to \<open>s32b\<close>.
  The macro updates both variables; the model returns the new pair.
\<close>

definition s64b_LSHIFT_2 :: "s32b \<times> u32b \<Rightarrow> int \<Rightarrow> (s32b \<times> u32b) option" where
  "s64b_LSHIFT_2 p N =
     (case p of (V1, V2) \<Rightarrow>
        do {
          a \<leftarrow> shl_s32 V1 N;
          b \<leftarrow> shr_u32 V2 (32 - N);
          V2' \<leftarrow> shl_u32 V2 N;
          Some (ucast ((ucast a :: u32b) OR b) :: s32b, V2')
        })"

text \<open>
  \<open>#define s64b_RSHIFT_2(V1, V2, N) {V2 = ((u32b)V1<<(32-(N))) | (V2>>(N)); V1 >>= (N);}\<close>
\<close>

definition s64b_RSHIFT_2 :: "s32b \<times> u32b \<Rightarrow> int \<Rightarrow> (s32b \<times> u32b) option" where
  "s64b_RSHIFT_2 p N =
     (case p of (V1, V2) \<Rightarrow>
        do {
          a \<leftarrow> shl_u32 (ucast V1 :: u32b) (32 - N);
          b \<leftarrow> shr_u32 V2 N;
          V1' \<leftarrow> shr_s32 V1 N;
          Some (V1', a OR b)
        })"

section \<open>The functions\<close>

text \<open>
  \<open>void s64b_lshift(s32b* hi, u32b* lo, const int n) {
      if (n == 0) return;
      *hi = (s32b)((u32b)(*hi << n) | (*lo >> (32 - n)));
      *lo <<= n;
  }\<close>

  The two pointers are the addresses of two distinct locals of the caller, so the
  function is a map from the pair to the new pair. The cast \<open>(u32b)\<close> applies to the
  result of the signed shift \<open>*hi << n\<close>.
\<close>

definition s64b_lshift :: "s32b \<times> u32b \<Rightarrow> int \<Rightarrow> (s32b \<times> u32b) option" where
  "s64b_lshift p n =
     (case p of (hi, lo) \<Rightarrow>
        if n = 0 then Some (hi, lo)
        else do {
          a \<leftarrow> shl_s32 hi n;
          b \<leftarrow> shr_u32 lo (32 - n);
          lo' \<leftarrow> shl_u32 lo n;
          Some (ucast ((ucast a :: u32b) OR b) :: s32b, lo')
        })"

text \<open>
  \<open>void s64b_rshift(s32b* hi, u32b* lo, const int n) {
      if (n == 0) return;
      *lo = ((u32b)*hi << (32 - n)) | (*lo >> n);
      *hi >>= n;
  }\<close>
\<close>

definition s64b_rshift :: "s32b \<times> u32b \<Rightarrow> int \<Rightarrow> (s32b \<times> u32b) option" where
  "s64b_rshift p n =
     (case p of (hi, lo) \<Rightarrow>
        if n = 0 then Some (hi, lo)
        else do {
          a \<leftarrow> shl_u32 (ucast hi :: u32b) (32 - n);
          b \<leftarrow> shr_u32 lo n;
          hi' \<leftarrow> shr_s32 hi n;
          Some (hi', a OR b)
        })"

text \<open>
  \<open>std::pair<s32b, u32b> unpack_s64b(const s64b x) {
      s32b hi = (s32b)(x >> 32);
      u32b lo = (u32b)(x & ((INT64_C(1) << 32) - 1));
      return { hi, lo };
  }\<close>

  Both shifts have the constant amount 32 on a 64-bit operand, and \<open>1 << 32\<close> does not
  overflow: nothing here is undefined.
\<close>

definition unpack_s64b :: "s64b \<Rightarrow> s32b \<times> u32b" where
  "unpack_s64b x =
     (let hi = (ucast (signed_drop_bit 32 x) :: s32b);
          lo = (ucast (x AND (push_bit 32 1 - 1)) :: u32b)
      in (hi, lo))"

definition f_lshift_macro :: "s64b \<Rightarrow> int \<Rightarrow> (s32b \<times> u32b) option" where
  "f_lshift_macro x n = s64b_LSHIFT_2 (unpack_s64b x) n"

definition f_rshift_macro :: "s64b \<Rightarrow> int \<Rightarrow> (s32b \<times> u32b) option" where
  "f_rshift_macro x n = s64b_RSHIFT_2 (unpack_s64b x) n"

definition f_lshift :: "s64b \<Rightarrow> int \<Rightarrow> (s32b \<times> u32b) option" where
  "f_lshift x n = s64b_lshift (unpack_s64b x) n"

definition f_rshift :: "s64b \<Rightarrow> int \<Rightarrow> (s32b \<times> u32b) option" where
  "f_rshift x n = s64b_rshift (unpack_s64b x) n"

section \<open>The checkers\<close>

text \<open>
  \<open>check_lshift\<close> and \<open>check_rshift\<close> print one line when the two variants differ and
  nothing otherwise. The model returns the lines printed: a line is the tuple of the
  values that \<open>fmt::print\<close> formats.
\<close>

datatype direction = Lshift | Rshift

datatype report = Report direction s64b int "s32b \<times> u32b" "s32b \<times> u32b"

definition check_lshift :: "s64b \<Rightarrow> int \<Rightarrow> report list option" where
  "check_lshift x n =
     do {
       r \<leftarrow> f_lshift x n;
       r_m \<leftarrow> f_lshift_macro x n;
       Some (if r \<noteq> r_m then [Report Lshift x n r r_m] else [])
     }"

definition check_rshift :: "s64b \<Rightarrow> int \<Rightarrow> report list option" where
  "check_rshift x n =
     do {
       r \<leftarrow> f_rshift x n;
       r_m \<leftarrow> f_rshift_macro x n;
       Some (if r \<noteq> r_m then [Report Rshift x n r r_m] else [])
     }"

section \<open>The largest safe left shift\<close>

text \<open>
  \<open>__builtin_clzll\<close> is the compiler's: the number of leading 0-bits of its argument,
  counted from the most significant bit, and undefined for the argument 0.
  \<open>clz_below k v\<close> counts the 0-bits from bit \<open>k - 1\<close> downwards.
\<close>

fun clz_below :: "nat \<Rightarrow> u64b \<Rightarrow> nat" where
  "clz_below 0 v = 0"
| "clz_below (Suc k) v = (if bit v k then 0 else Suc (clz_below k v))"

definition builtin_clzll :: "u64b \<Rightarrow> int option" where
  "builtin_clzll v = (if v = 0 then None else Some (int (clz_below 64 v)))"

text \<open>
  \<open>int lshift_count_max(const s64b x) {
      if (x == 0) return 31;
      return std::min(31, __builtin_clzll((u64b)x) - 1);
  }\<close>
\<close>

definition lshift_count_max :: "s64b \<Rightarrow> int option" where
  "lshift_count_max x =
     (if x = 0 then Some 31
      else do {
        c \<leftarrow> builtin_clzll (ucast x :: u64b);
        Some (min 31 (c - 1))
      })"

section \<open>The left-shift sweep of the test driver\<close>

text \<open>
  The inner loop of \<open>test\<close> over the left-shift amounts of one sampled value \<open>x\<close>:

  \<open>for (int n = 1; n <= lshift_count_max(x); ++n)
      check_lshift(x, n);\<close>

  \<open>lshift_sweep x n\<close> runs the loop from the amount \<open>n\<close> on: the condition is evaluated
  before every iteration, as in the source. The result lists the calls of
  \<open>check_lshift\<close> that the loop makes, each amount with the lines that call printed; an
  empty list is a loop that ran no iteration. The loop ends because the bound never
  exceeds 31.
\<close>

function lshift_sweep :: "s64b \<Rightarrow> int \<Rightarrow> (int \<times> report list) list option" where
  "lshift_sweep x n =
     do {
       m \<leftarrow> lshift_count_max x;
       if n \<le> m then
         do {
           out \<leftarrow> check_lshift x n;
           rest \<leftarrow> lshift_sweep x (n + 1);
           Some ((n, out) # rest)
         }
       else Some []
     }"
  by pat_completeness auto
termination
  apply (relation "measure (\<lambda>(x, n). nat (32 - n))")
   apply simp
  apply (auto simp: lshift_count_max_def builtin_clzll_def split: if_splits)
  done

section \<open>Reassembling a pair\<close>

text \<open>
  Modelled from the spec: the repository has no function that joins a pair; the spec
  gives it as \<open>(high widened to 64-bit) << 32 | low widened to 64-bit (zero-extended)\<close>,
  reconstructing the bit pattern. The high lane is sign-extended, the low lane
  zero-extended.
\<close>

definition join :: "s32b \<times> u32b \<Rightarrow> s64b" where
  "join p = (case p of (hi, lo) \<Rightarrow> push_bit 32 (scast hi :: s64b) OR (ucast lo :: s64b))"

section \<open>Leading zeros and the magnitude of a word\<close>

text \<open>
  The bits that \<open>clz_below\<close> counts are clear, and the bit below them is set. So a
  non-zero word with \<open>c\<close> leading zeros lies between \<open>2 ^ (63 - c)\<close> and \<open>2 ^ (64 - c)\<close>.
\<close>

lemma clz_below_le: "clz_below k v \<le> k"
  by (induction k) auto

lemma clz_below_clear: "k - clz_below k v \<le> j \<Longrightarrow> j < k \<Longrightarrow> \<not> bit v j"
proof (induction k arbitrary: j)
  case 0
  then show ?case by simp
next
  case (Suc k)
  show ?case
  proof (cases "bit v k")
    case True
    with Suc.prems show ?thesis by simp
  next
    case False
    show ?thesis
    proof (cases "j = k")
      case True
      with False show ?thesis by simp
    next
      case neq: False
      with Suc.prems \<open>\<not> bit v k\<close> have "k - clz_below k v \<le> j" "j < k" by auto
      then show ?thesis by (rule Suc.IH)
    qed
  qed
qed

lemma clz_below_set: "clz_below k v < k \<Longrightarrow> bit v (k - 1 - clz_below k v)"
  by (induction k) (auto split: if_splits)

lemma clz_below_full: "clz_below k v = k \<Longrightarrow> j < k \<Longrightarrow> \<not> bit v j"
  using clz_below_clear [of k v j] by simp

lemma clz_below_nonzero: "v \<noteq> 0 \<Longrightarrow> clz_below 64 v < 64"
proof (rule ccontr)
  assume nz: "v \<noteq> 0" and "\<not> clz_below 64 v < 64"
  with clz_below_le [of 64 v] have full: "clz_below 64 v = 64" by simp
  have "v = 0"
    by (rule bit_word_eqI) (use clz_below_full [OF full] in simp)
  with nz show False by simp
qed

lemma clz_upper: "uint v < 2 ^ (64 - clz_below 64 v)"
proof -
  have "j < 64 - clz_below 64 v" if "bit v j" for j
    using that clz_below_clear [of 64 v j] bit_imp_le_length [of v j] by (cases "j < 64 - clz_below 64 v") auto
  then have "take_bit (64 - clz_below 64 v) v = v"
    by (intro bit_word_eqI) (auto simp: bit_simps)
  then have "uint v = take_bit (64 - clz_below 64 v) (uint v)"
    by (metis unsigned_take_bit_eq)
  then show ?thesis
    by (metis take_bit_int_less_exp)
qed

lemma bit_imp_ge: "bit (v :: 64 word) p \<Longrightarrow> 2 ^ p \<le> uint v"
proof (rule ccontr)
  assume b: "bit v p" and "\<not> 2 ^ p \<le> uint v"
  then have "uint v < 2 ^ p" by simp
  then have "take_bit p (uint v) = uint v"
    by (simp add: take_bit_int_eq_self)
  then have "\<not> bit (uint v) p"
    by (metis bit_take_bit_iff less_irrefl)
  with b show False using bit_imp_le_length [of v p] by (simp add: bit_uint_iff)
qed

lemma clz_lower: "v \<noteq> 0 \<Longrightarrow> 2 ^ (63 - clz_below 64 v) \<le> uint v"
  using clz_below_set [of 64 v] clz_below_nonzero [of v] bit_imp_ge [of v "63 - clz_below 64 v"]
  by simp

section \<open>Signed and unsigned readings\<close>

text \<open>A word whose sign bit is clear has the same signed and unsigned value.\<close>

lemma uint_less_imp_sint: "uint w < 2 ^ (LENGTH('a) - Suc 0) \<Longrightarrow> sint w = uint w"
  for w :: "'a::len word"
proof -
  assume less: "uint w < 2 ^ (LENGTH('a) - Suc 0)"
  have "- (2 ^ (LENGTH('a) - Suc 0)) \<le> (0::int)" by simp
  also have "0 \<le> uint w" by simp
  finally have "signed_take_bit (LENGTH('a) - Suc 0) (uint w) = uint w"
    using less by (rule signed_take_bit_int_eq_self)
  then show ?thesis by (simp only: sint_uint)
qed

lemma sint_nonneg_imp_uint_less: "0 \<le> sint w \<Longrightarrow> uint w < 2 ^ (LENGTH('a) - Suc 0)"
  for w :: "'a::len word"
proof -
  assume "0 \<le> sint w"
  then have nb: "\<not> bit w (LENGTH('a) - Suc 0)"
    by (simp add: bit_last_iff)
  have "j < LENGTH('a) - Suc 0" if "bit w j" for j
    using that nb bit_imp_le_length [of w j] by (cases "j = LENGTH('a) - Suc 0") auto
  then have "take_bit (LENGTH('a) - Suc 0) w = w"
    by (intro bit_word_eqI) (auto simp: bit_simps)
  then have "uint w = take_bit (LENGTH('a) - Suc 0) (uint w)"
    by (metis unsigned_take_bit_eq)
  then show ?thesis
    by (metis take_bit_int_less_exp)
qed

lemma sint_nonneg_uint: "0 \<le> sint w \<Longrightarrow> sint w = uint w"
  for w :: "'a::len word"
  by (rule uint_less_imp_sint) (rule sint_nonneg_imp_uint_less)

lemma sint_push_bit_safe:
  fixes x :: "64 word"
  assumes nn: "0 \<le> sint x" and safe: "uint x * 2 ^ k < 2 ^ 63"
  shows "sint (push_bit k x) = sint x * 2 ^ k"
proof -
  have "uint (push_bit k x) = take_bit 64 (uint x * 2 ^ k)"
    using unsigned_push_bit_eq [of k x, where ?'a = int] by (simp add: push_bit_eq_mult)
  also have "\<dots> = uint x * 2 ^ k"
    using safe by (intro take_bit_int_eq_self) simp_all
  finally have u: "uint (push_bit k x) = uint x * 2 ^ k" .
  with safe have "sint (push_bit k x) = uint (push_bit k x)"
    by (intro uint_less_imp_sint) simp
  with u nn show ?thesis
    by (simp add: sint_nonneg_uint)
qed

section \<open>The two lanes of a value\<close>

text \<open>
  The high lane holds bits 63..32 of the value and the low lane bits 31..0, whatever the
  sign: the arithmetic shift and the mask only differ from a logical shift and a
  truncation in bits that the casts drop.
\<close>

lemma low_mask: "(push_bit 32 1 - 1 :: 64 word) = mask 32"
  by (simp add: mask_eq_exp_minus_1 push_bit_of_1)

lemma unpack_s64b_eq: "unpack_s64b x = (ucast (drop_bit 32 x), ucast x)"
proof -
  have "(ucast (signed_drop_bit 32 x) :: 32 word) = ucast (drop_bit 32 x)"
    by (rule bit_word_eqI) (auto simp: bit_simps)
  moreover have "(ucast (x AND mask 32) :: 32 word) = ucast x"
    by (rule bit_word_eqI) (auto simp: bit_simps)
  ultimately show ?thesis
    unfolding unpack_s64b_def low_mask by (simp add: Let_def)
qed

lemma unpack_s64b_0: "unpack_s64b 0 = (0, 0)"
  by (simp add: unpack_s64b_eq)

lemma uint_hi: "uint (ucast (drop_bit 32 x) :: 32 word) = uint x div 2 ^ 32" for x :: "64 word"
proof -
  have less: "uint x div 2 ^ 32 < 2 ^ 32"
    using uint_lt2p [of x] by simp
  have nonneg: "0 \<le> uint x div 2 ^ 32"
    by (simp add: pos_imp_zdiv_nonneg_iff)
  have "uint (drop_bit 32 x) = uint x div 2 ^ 32"
    by (simp add: drop_bit_eq_div uint_div_distrib)
  moreover have "uint (ucast (drop_bit 32 x) :: 32 word) = take_bit 32 (uint (drop_bit 32 x))"
    by (simp add: unsigned_ucast_eq)
  ultimately show ?thesis
    using take_bit_int_eq_self [OF nonneg less] by simp
qed

lemma join_bit: "bit (join (hi, lo)) k \<longleftrightarrow> (if k < 32 then bit lo k else k < 64 \<and> bit hi (k - 32))"
  by (auto simp: join_def bit_simps dest: bit_imp_le_length)

section \<open>Properties of \<open>lshift_count_max\<close>\<close>

lemma lshift_count_max_nonzero:
  "x \<noteq> 0 \<Longrightarrow> lshift_count_max x = Some (min 31 (int (clz_below 64 x) - 1))"
  by (simp add: lshift_count_max_def builtin_clzll_def)

lemma clz_below_pos: "0 \<le> sint x \<Longrightarrow> x \<noteq> 0 \<Longrightarrow> 1 \<le> clz_below 64 x"
proof (rule ccontr)
  assume nn: "0 \<le> sint x" and nz: "x \<noteq> 0" and "\<not> 1 \<le> clz_below 64 x"
  then have "clz_below 64 x = 0" by simp
  with clz_lower [OF nz] have "2 ^ 63 \<le> uint x" by simp
  with sint_nonneg_imp_uint_less [OF nn] show False by simp
qed

lemma lshift_count_max_range:
  assumes "0 \<le> sint x" and "lshift_count_max x = Some m"
  shows "0 \<le> m \<and> m \<le> 31"
proof (cases "x = 0")
  case True
  with assms show ?thesis by (simp add: lshift_count_max_def)
next
  case False
  with assms clz_below_pos [of x] show ?thesis
    by (auto simp: lshift_count_max_nonzero)
qed

lemma lshift_count_max_safe:
  assumes nn: "0 \<le> sint x" and m: "lshift_count_max x = Some m" and n: "0 \<le> n" "n \<le> m"
  shows "uint x * 2 ^ nat n < 2 ^ 63"
proof (cases "x = 0")
  case True
  then show ?thesis by simp
next
  case False
  define c where "c = clz_below 64 x"
  have c1: "1 \<le> c" unfolding c_def using nn False by (rule clz_below_pos)
  have c64: "c < 64" unfolding c_def using False by (rule clz_below_nonzero)
  from m False have "m = min 31 (int c - 1)"
    by (simp add: lshift_count_max_nonzero c_def)
  with n have le: "nat n + (64 - c) \<le> 63" using c1 c64 by auto
  have "uint x * 2 ^ nat n < 2 ^ (64 - c) * 2 ^ nat n"
    using clz_upper [of x] by (simp add: c_def)
  also have "\<dots> = (2::int) ^ (nat n + (64 - c))"
    by (simp add: power_add)
  also have "\<dots> \<le> 2 ^ 63"
    using le by (intro power_increasing) simp_all
  finally show ?thesis .
qed

lemma lshift_count_max_tight:
  assumes pos: "0 < sint x" and m: "lshift_count_max x = Some m" and lt: "m < 31"
  shows "2 ^ 63 \<le> uint x * 2 ^ nat (m + 1)"
proof -
  from pos have nz: "x \<noteq> 0" by auto
  from pos have nn: "0 \<le> sint x" by simp
  define c where "c = clz_below 64 x"
  have c1: "1 \<le> c" unfolding c_def using nn nz by (rule clz_below_pos)
  have c64: "c < 64" unfolding c_def using nz by (rule clz_below_nonzero)
  from m nz have "m = min 31 (int c - 1)"
    by (simp add: lshift_count_max_nonzero c_def)
  with lt have "nat (m + 1) = c" using c1 by auto
  moreover have "(2::int) ^ 63 = 2 ^ (63 - c) * 2 ^ c"
    using c64 by (simp flip: power_add)
  moreover have "2 ^ (63 - c) * 2 ^ c \<le> uint x * 2 ^ c"
    using clz_lower [OF nz] by (intro mult_right_mono) (simp_all add: c_def)
  ultimately show ?thesis by simp
qed

lemma lshift_count_max_zero_iff:
  assumes pos: "0 < sint x" and m: "lshift_count_max x = Some m"
  shows "m = 0 \<longleftrightarrow> 2 ^ 62 \<le> sint x"
proof -
  from pos have nz: "x \<noteq> 0" by auto
  from pos have nn: "0 \<le> sint x" by simp
  have su: "sint x = uint x" using nn by (rule sint_nonneg_uint)
  define c where "c = clz_below 64 x"
  have c1: "1 \<le> c" unfolding c_def using nn nz by (rule clz_below_pos)
  have c64: "c < 64" unfolding c_def using nz by (rule clz_below_nonzero)
  from m nz have meq: "m = min 31 (int c - 1)"
    by (simp add: lshift_count_max_nonzero c_def)
  show ?thesis
  proof
    assume "m = 0"
    with meq c1 have "c = 1" by auto
    with clz_lower [OF nz] show "2 ^ 62 \<le> sint x" by (simp add: c_def su)
  next
    assume "2 ^ 62 \<le> sint x"
    with clz_upper [of x] have "(2::int) ^ 62 < 2 ^ (64 - c)" by (simp add: c_def su)
    then have "62 < 64 - c" by (rule power_less_imp_less_exp [rotated]) simp
    with c1 have "c = 1" by simp
    with meq show "m = 0" by simp
  qed
qed

section \<open>What the shifts compute\<close>

text \<open>
  For a non-zero amount the macro and the function are the same sequence of lane
  operations. The signed left shift of the high lane is defined when the 64-bit
  product does not overflow; the right shift is always defined for amounts 1..31.
  Joined again, the lanes of the left shift are the 64-bit value shifted left, and
  those of the right shift the 64-bit value shifted right arithmetically.
\<close>

lemma s64b_LSHIFT_2_eq: "n \<noteq> 0 \<Longrightarrow> s64b_LSHIFT_2 p n = s64b_lshift p n"
  by (simp add: s64b_LSHIFT_2_def s64b_lshift_def)

lemma s64b_RSHIFT_2_eq: "n \<noteq> 0 \<Longrightarrow> s64b_RSHIFT_2 p n = s64b_rshift p n"
  by (simp add: s64b_RSHIFT_2_def s64b_rshift_def)

text \<open>
  At the amount 0 the macros shift a lane by 32, which is undefined: the guard of the
  functions is what makes the amount 0 usable.
\<close>

lemma macro_zero_amount_undefined: "f_lshift_macro x 0 = None \<and> f_rshift_macro x 0 = None"
  by (simp add: f_lshift_macro_def f_rshift_macro_def s64b_LSHIFT_2_def s64b_RSHIFT_2_def
      shr_u32_def shl_u32_def bind_eq_None_conv split: prod.split)

lemma shl_s32_0:"0 \<le> n \<Longrightarrow> n < 32 \<Longrightarrow> shl_s32 0 n = Some 0"
  by (simp add: shl_s32_def)

lemma shl_hi_defined:
  fixes x :: "64 word"
  assumes nn: "0 \<le> sint x" and n: "0 \<le> n" "n < 32" and safe: "uint x * 2 ^ nat n < 2 ^ 63"
  shows "shl_s32 (ucast (drop_bit 32 x)) n = Some (push_bit (nat n) (ucast (drop_bit 32 x)))"
proof -
  let ?hi = "ucast (drop_bit 32 x) :: 32 word"
  have u: "uint ?hi = uint x div 2 ^ 32" by (rule uint_hi)
  have "uint x < 2 ^ 63" using sint_nonneg_imp_uint_less [OF nn] by simp
  then have "uint ?hi < 2 ^ 31" unfolding u by simp
  then have s: "sint ?hi = uint ?hi" by (intro uint_less_imp_sint) simp
  define a where "a = uint ?hi * 2 ^ nat n"
  define b where "b = uint x * 2 ^ nat n"
  have "uint ?hi * 2 ^ 32 \<le> uint x" unfolding u by simp
  then have "uint ?hi * 2 ^ 32 * 2 ^ nat n \<le> uint x * 2 ^ nat n"
    by (intro mult_right_mono) simp_all
  then have "a * 2 ^ 32 \<le> b"
    by (simp add: a_def b_def ac_simps)
  moreover have "b < 2 ^ 63" using safe by (simp add: b_def)
  ultimately have "a < 2 ^ 31" by simp
  moreover have "0 \<le> uint ?hi" by simp
  ultimately show ?thesis
    using n by (simp add: shl_s32_def s a_def)
qed

lemma s64b_lshift_defined:
  assumes nn: "0 \<le> sint x" and n: "1 \<le> n" "n \<le> 31" and safe: "uint x * 2 ^ nat n < 2 ^ 63"
  shows "s64b_lshift (unpack_s64b x) n =
    Some (ucast (ucast (push_bit (nat n) (ucast (drop_bit 32 x) :: 32 word)) OR
                 drop_bit (32 - nat n) (ucast x :: 32 word)),
          push_bit (nat n) (ucast x :: 32 word))"
proof -
  have "nat (32 - n) = 32 - nat n" using n by simp
  moreover have "shl_s32 (ucast (drop_bit 32 x)) n = Some (push_bit (nat n) (ucast (drop_bit 32 x)))"
    using nn _ _ safe by (rule shl_hi_defined) (use n in simp_all)
  ultimately show ?thesis
    using n by (simp add: s64b_lshift_def unpack_s64b_eq shr_u32_def shl_u32_def)
qed

lemma s64b_rshift_defined:
  assumes n: "1 \<le> n" "n \<le> 31"
  shows "s64b_rshift (unpack_s64b x) n =
    Some (signed_drop_bit (nat n) (ucast (drop_bit 32 x) :: 32 word),
          push_bit (32 - nat n) (ucast (ucast (drop_bit 32 x) :: 32 word) :: 32 word) OR
          drop_bit (nat n) (ucast x :: 32 word))"
proof -
  have "nat (32 - n) = 32 - nat n" using n by simp
  then show ?thesis
    using n by (simp add: s64b_rshift_def unpack_s64b_eq shr_u32_def shl_u32_def shr_s32_def)
qed

lemma join_lshift:
  assumes k: "0 < k" "k < 32"
  shows "join (ucast (ucast (push_bit k (ucast (drop_bit 32 x) :: 32 word)) OR
                 drop_bit (32 - k) (ucast x :: 32 word)),
          push_bit k (ucast x :: 32 word)) = push_bit k (x :: 64 word)"
  apply (rule bit_word_eqI)
  apply (simp only: join_bit)
  using k apply (auto simp: bit_simps)
  done

lemma join_rshift:
  assumes k: "0 < k" "k < 32"
  shows "join (signed_drop_bit k (ucast (drop_bit 32 x) :: 32 word),
          push_bit (32 - k) (ucast (ucast (drop_bit 32 x) :: 32 word) :: 32 word) OR
          drop_bit k (ucast x :: 32 word)) = signed_drop_bit k (x :: 64 word)"
  apply (rule bit_word_eqI)
  apply (simp only: join_bit)
  using k apply (auto simp: bit_simps)
   apply (simp_all only: add.commute [of k])
  done

section \<open>The claims\<close>

text \<open>
  Claim C1 (variant equivalence, left). For every non-negative \<open>x\<close> and every amount
  \<open>n\<close> with \<open>1 \<le> n \<le> lshift_count_max(x)\<close>, the guarded left shift \<open>f_lshift\<close> and the
  macro left shift \<open>f_lshift_macro\<close> both return a pair without undefined behaviour, the
  two pairs are the same, and \<open>check_lshift\<close> prints nothing.
\<close>

theorem lshift_variants_agree:
  assumes "0 \<le> sint x" and "lshift_count_max x = Some m" and "1 \<le> n" and "n \<le> m"
  shows "\<exists>p. f_lshift x n = Some p \<and> f_lshift_macro x n = Some p \<and> check_lshift x n = Some []"
proof -
  from assms have n31: "n \<le> 31"
    using lshift_count_max_range [of x m] by simp
  from assms have safe: "uint x * 2 ^ nat n < 2 ^ 63"
    by (intro lshift_count_max_safe [of x m]) simp_all
  note d = s64b_lshift_defined [OF \<open>0 \<le> sint x\<close> \<open>1 \<le> n\<close> n31 safe]
  from \<open>1 \<le> n\<close> have "n \<noteq> 0" by simp
  then show ?thesis
    by (simp add: f_lshift_def f_lshift_macro_def check_lshift_def s64b_LSHIFT_2_eq d)
qed

theorem lshift_variants_agree_witness:
  "0 \<le> sint (5 :: s64b) \<and> lshift_count_max 5 = Some 31 \<and>
   (\<exists>p. f_lshift 5 3 = Some p \<and> f_lshift_macro 5 3 = Some p \<and> check_lshift 5 3 = Some [])"
proof -
  have h1: "0 \<le> sint (5 :: s64b)" by simp
  have h2: "lshift_count_max 5 = Some 31" by code_simp
  from lshift_variants_agree [OF h1 h2, of 3] h1 h2 show ?thesis by simp
qed

text \<open>
  Claim C2 (variant equivalence, right). For every non-negative \<open>x\<close> and every amount
  \<open>n\<close> with \<open>1 \<le> n \<le> 31\<close>, the guarded right shift \<open>f_rshift\<close> and the macro right shift
  \<open>f_rshift_macro\<close> both return a pair, the two pairs are the same, and \<open>check_rshift\<close>
  prints nothing.
\<close>

theorem rshift_variants_agree:
  assumes "0 \<le> sint x" and "1 \<le> n" and "n \<le> 31"
  shows "\<exists>p. f_rshift x n = Some p \<and> f_rshift_macro x n = Some p \<and> check_rshift x n = Some []"
proof -
  note d = s64b_rshift_defined [OF \<open>1 \<le> n\<close> \<open>n \<le> 31\<close>, of x]
  from \<open>1 \<le> n\<close> have "n \<noteq> 0" by simp
  then show ?thesis
    by (simp add: f_rshift_def f_rshift_macro_def check_rshift_def s64b_RSHIFT_2_eq d)
qed

theorem rshift_variants_agree_witness:
  "0 \<le> sint (1099511627776 :: s64b) \<and>
   (\<exists>p. f_rshift 1099511627776 1 = Some p \<and> f_rshift_macro 1099511627776 1 = Some p \<and>
     check_rshift 1099511627776 1 = Some [])"
proof -
  have h1: "0 \<le> sint (1099511627776 :: s64b)" by simp
  from rshift_variants_agree [OF h1, of 1] h1 show ?thesis by simp
qed

text \<open>
  Claim C3 (left shift multiplies). For every non-negative \<open>x\<close> and every amount \<open>n\<close>
  with \<open>1 \<le> n \<le> lshift_count_max(x)\<close>, the pair that \<open>f_lshift x n\<close> returns, joined into
  a 64-bit signed value, is exactly \<open>x * 2 ^ n\<close> (as integers: the product does not
  wrap).
\<close>

theorem lshift_value:
  assumes "0 \<le> sint x" and "lshift_count_max x = Some m" and "1 \<le> n" and "n \<le> m"
  shows "\<exists>p. f_lshift x n = Some p \<and> sint (join p) = sint x * 2 ^ nat n"
proof -
  from assms have n31: "n \<le> 31"
    using lshift_count_max_range [of x m] by simp
  from assms have safe: "uint x * 2 ^ nat n < 2 ^ 63"
    by (intro lshift_count_max_safe [of x m]) simp_all
  note d = s64b_lshift_defined [OF \<open>0 \<le> sint x\<close> \<open>1 \<le> n\<close> n31 safe]
  have k: "0 < nat n" "nat n < 32" using \<open>1 \<le> n\<close> n31 by simp_all
  show ?thesis
    unfolding f_lshift_def d
    by (simp only: option.inject simp_thms ex_simps join_lshift [OF k]
        sint_push_bit_safe [OF \<open>0 \<le> sint x\<close> safe])
qed

theorem lshift_value_witness:
  "0 \<le> sint (1 :: s64b) \<and> lshift_count_max 1 = Some 31 \<and>
   (\<exists>p. f_lshift 1 31 = Some p \<and> sint (join p) = sint (1 :: s64b) * 2 ^ nat 31)"
proof -
  have h1: "0 \<le> sint (1 :: s64b)" by simp
  have h2: "lshift_count_max 1 = Some 31" by code_simp
  from lshift_value [OF h1 h2, of 31] h1 h2 show ?thesis by simp
qed

text \<open>
  Claim C4 (right shift divides). For every non-negative \<open>x\<close> and every amount \<open>n\<close> with
  \<open>1 \<le> n \<le> 31\<close>, the pair that \<open>f_rshift x n\<close> returns, joined into a 64-bit signed
  value, is exactly the integer quotient of \<open>x\<close> by \<open>2 ^ n\<close>.
\<close>

theorem rshift_value:
  assumes "0 \<le> sint x" and "1 \<le> n" and "n \<le> 31"
  shows "\<exists>p. f_rshift x n = Some p \<and> sint (join p) = sint x div 2 ^ nat n"
proof -
  note d = s64b_rshift_defined [OF \<open>1 \<le> n\<close> \<open>n \<le> 31\<close>, of x]
  have k: "0 < nat n" "nat n < 32" using \<open>1 \<le> n\<close> \<open>n \<le> 31\<close> by simp_all
  have "sint (signed_drop_bit (nat n) x) = sint x div 2 ^ nat n"
    by (simp only: sint_signed_drop_bit_eq drop_bit_eq_div)
  then show ?thesis
    unfolding f_rshift_def d
    by (simp only: option.inject simp_thms ex_simps join_rshift [OF k])
qed

theorem rshift_value_witness:
  "0 \<le> sint (1099511627776 :: s64b) \<and>
   (\<exists>p. f_rshift 1099511627776 1 = Some p \<and>
     sint (join p) = sint (1099511627776 :: s64b) div 2 ^ nat 1)"
proof -
  have h1: "0 \<le> sint (1099511627776 :: s64b)" by simp
  from rshift_value [OF h1, of 1] h1 show ?thesis by simp
qed

text \<open>
  Claim C5 (round trip). For every 64-bit signed \<open>x\<close>, negative values and both ends of
  the range included, joining the pair that \<open>unpack_s64b x\<close> returns gives \<open>x\<close> back.
\<close>

theorem join_unpack_s64b: "join (unpack_s64b x) = x"
  unfolding unpack_s64b_eq
  by (rule bit_word_eqI) (auto simp: join_bit bit_simps)

text \<open>
  Claim C6 (largest safe left shift). \<open>lshift_count_max(0)\<close> is 31. For every \<open>x > 0\<close>,
  \<open>lshift_count_max(x)\<close> returns an \<open>m\<close> in 0..31 with \<open>x * 2 ^ m \<le> INT64_MAX\<close>, and
  whenever \<open>m + 1 \<le> 31\<close> the product \<open>x * 2 ^ (m + 1)\<close> exceeds \<open>INT64_MAX\<close>.
\<close>

theorem lshift_count_max_correct:
  assumes "0 < sint x"
  shows "lshift_count_max 0 = Some 31 \<and>
    (\<exists>m. lshift_count_max x = Some m \<and> 0 \<le> m \<and> m \<le> 31 \<and>
      sint x * 2 ^ nat m \<le> 2 ^ 63 - 1 \<and>
      (m + 1 \<le> 31 \<longrightarrow> 2 ^ 63 - 1 < sint x * 2 ^ nat (m + 1)))"
proof -
  from assms have nz: "x \<noteq> 0" by auto
  from assms have nn: "0 \<le> sint x" by simp
  have su: "sint x = uint x" using nn by (rule sint_nonneg_uint)
  obtain m where m: "lshift_count_max x = Some m"
    using lshift_count_max_nonzero [OF nz] by simp
  have range: "0 \<le> m \<and> m \<le> 31" using nn m by (rule lshift_count_max_range)
  have "uint x * 2 ^ nat m < 2 ^ 63"
    using nn m range by (intro lshift_count_max_safe [of x m]) simp_all
  then have safe: "sint x * 2 ^ nat m \<le> 2 ^ 63 - 1" by (simp add: su)
  have tight: "2 ^ 63 - 1 < sint x * 2 ^ nat (m + 1)" if "m + 1 \<le> 31"
    using lshift_count_max_tight [OF assms m] that by (simp add: su)
  have zero: "lshift_count_max 0 = Some 31" by (simp add: lshift_count_max_def)
  from m range safe tight zero show ?thesis by simp
qed

theorem lshift_count_max_correct_witness:
  "0 < sint (1099511627776 :: s64b) \<and> lshift_count_max 0 = Some 31 \<and>
   lshift_count_max 1099511627776 = Some 22 \<and>
   sint (1099511627776 :: s64b) * 2 ^ nat 22 \<le> 2 ^ 63 - 1 \<and>
   (22 :: int) + 1 \<le> 31 \<and>
   2 ^ 63 - 1 < sint (1099511627776 :: s64b) * 2 ^ nat (22 + 1)"
proof -
  have h: "0 < sint (1099511627776 :: s64b)" by simp
  have e: "lshift_count_max 1099511627776 = Some 22" by code_simp
  from lshift_count_max_correct [OF h] h e show ?thesis by simp
qed

text \<open>
  Claim C7 (zero-amount identity). For every non-negative \<open>x\<close>, \<open>f_lshift x 0\<close> and
  \<open>f_rshift x 0\<close> return the pair \<open>unpack_s64b x\<close> unchanged: the guard \<open>n == 0\<close> returns
  before any lane is shifted, so no shift by 32 is evaluated.
\<close>

theorem zero_amount_identity:
  assumes "0 \<le> sint x"
  shows "f_lshift x 0 = Some (unpack_s64b x) \<and> f_rshift x 0 = Some (unpack_s64b x)"
  by (simp add: f_lshift_def f_rshift_def s64b_lshift_def s64b_rshift_def split: prod.split)

theorem zero_amount_identity_witness:
  "0 \<le> sint (7 :: s64b) \<and> f_lshift 7 0 = Some (unpack_s64b 7) \<and>
   f_rshift 7 0 = Some (unpack_s64b 7)"
proof -
  have h: "0 \<le> sint (7 :: s64b)" by simp
  from zero_amount_identity [OF h] h show ?thesis by simp
qed

text \<open>
  Claim C8 (zero is a fixed point). For every amount \<open>n\<close> with \<open>1 \<le> n \<le> 31\<close>, the four
  variants \<open>f_lshift\<close>, \<open>f_lshift_macro\<close>, \<open>f_rshift\<close> and \<open>f_rshift_macro\<close> applied to the
  value 0 all return the pair \<open>(0, 0)\<close>.
\<close>

theorem zero_fixed_point:
  assumes "1 \<le> n" and "n \<le> 31"
  shows "f_lshift 0 n = Some (0, 0) \<and> f_lshift_macro 0 n = Some (0, 0) \<and>
    f_rshift 0 n = Some (0, 0) \<and> f_rshift_macro 0 n = Some (0, 0)"
  using assms
  by (simp add: f_lshift_def f_lshift_macro_def f_rshift_def f_rshift_macro_def
      s64b_lshift_def s64b_LSHIFT_2_def s64b_rshift_def s64b_RSHIFT_2_def
      unpack_s64b_0 shl_s32_0 shl_u32_def shr_u32_def shr_s32_def)

theorem zero_fixed_point_witness:
  "(1 :: int) \<le> 31 \<and> f_lshift 0 31 = Some (0, 0) \<and> f_lshift_macro 0 31 = Some (0, 0) \<and>
    f_rshift 0 31 = Some (0, 0) \<and> f_rshift_macro 0 31 = Some (0, 0)"
  using zero_fixed_point [of 31] by simp

text \<open>
  Claim C9 (right-shift variants agree on every input). For every 64-bit signed \<open>x\<close>,
  negative ones included, and every amount \<open>n\<close> with \<open>1 \<le> n \<le> 31\<close>, \<open>f_rshift x n\<close>
  equals \<open>f_rshift_macro x n\<close>: both are the lanes
  \<open>high >> n\<close> and \<open>((u32b)high << (32 - n)) | (low >> n)\<close> of the unpacked pair.
\<close>

theorem rshift_variants_agree_signed:
  assumes "1 \<le> n" and "n \<le> 31"
  shows "f_rshift x n = f_rshift_macro x n \<and>
    f_rshift_macro x n =
      (case unpack_s64b x of (hi, lo) \<Rightarrow>
         Some (signed_drop_bit (nat n) hi,
               push_bit (nat (32 - n)) (ucast hi :: u32b) OR drop_bit (nat n) lo))"
  using assms
  by (simp add: f_rshift_def f_rshift_macro_def s64b_rshift_def s64b_RSHIFT_2_def
      shl_u32_def shr_u32_def shr_s32_def split: prod.split)

theorem rshift_variants_agree_signed_witness:
  "(1 :: int) \<le> 3 \<and> (3 :: int) \<le> 31 \<and> sint (- 5 :: s64b) < 0 \<and>
   f_rshift (- 5) 3 = f_rshift_macro (- 5) 3 \<and>
   f_rshift_macro (- 5) 3 = Some (- 1, - 1)"
proof -
  have u: "unpack_s64b (- 5) = (- 1, - 5)" by code_simp
  have v: "Some (signed_drop_bit (nat 3) (- 1 :: s32b),
      push_bit (nat (32 - 3)) (ucast (- 1 :: s32b) :: u32b) OR drop_bit (nat 3) (- 5 :: u32b))
      = Some (- 1, - 1)" by code_simp
  have s: "sint (- 5 :: s64b) < 0" by simp
  from rshift_variants_agree_signed [of 3 "- 5"] u v s show ?thesis by simp
qed

text \<open>
  Claim C10 (values from \<open>2 ^ 62\<close> on are never left-shifted by the sweep). For every
  non-negative \<open>x\<close>, \<open>lshift_count_max(x)\<close> returns a value in 0..31; for \<open>x > 0\<close> that
  value is 0 exactly when \<open>x \<ge> 2 ^ 62\<close>; and for \<open>x \<ge> 2 ^ 62\<close> the loop over the amounts
  \<open>1..lshift_count_max(x)\<close> makes no call of \<open>check_lshift\<close>.
\<close>

theorem lshift_count_max_sweep:
  assumes "0 \<le> sint x"
  shows "\<exists>m. lshift_count_max x = Some m \<and> 0 \<le> m \<and> m \<le> 31 \<and>
    (0 < sint x \<longrightarrow> (m = 0 \<longleftrightarrow> 2 ^ 62 \<le> sint x)) \<and>
    (2 ^ 62 \<le> sint x \<longrightarrow> lshift_sweep x 1 = Some [])"
proof -
  have "\<exists>m. lshift_count_max x = Some m"
  proof (cases "x = 0")
    case True
    then show ?thesis by (simp add: lshift_count_max_def)
  next
    case False
    then show ?thesis by (simp add: lshift_count_max_nonzero)
  qed
  then obtain m where m: "lshift_count_max x = Some m" ..
  have range: "0 \<le> m \<and> m \<le> 31" using assms m by (rule lshift_count_max_range)
  have iff: "m = 0 \<longleftrightarrow> 2 ^ 62 \<le> sint x" if "0 < sint x"
    using that m by (rule lshift_count_max_zero_iff)
  have "lshift_sweep x 1 = Some []" if big: "2 ^ 62 \<le> sint x"
  proof -
    from big have "0 < sint x" by simp
    with iff big have "m = 0" by simp
    with m show ?thesis by (subst lshift_sweep.simps) simp
  qed
  with m range iff show ?thesis by simp
qed

theorem lshift_count_max_sweep_witness:
  "0 \<le> sint (4611686018427387904 :: s64b) \<and>
   (2 :: int) ^ 62 \<le> sint (4611686018427387904 :: s64b) \<and>
   lshift_count_max 4611686018427387904 = Some 0 \<and>
   lshift_sweep 4611686018427387904 1 = Some []"
proof -
  have h: "0 \<le> sint (4611686018427387904 :: s64b)" by simp
  have e: "lshift_count_max 4611686018427387904 = Some 0" by code_simp
  from lshift_count_max_sweep [OF h] h e show ?thesis by simp
qed

end
